theory Spec2Isabelle
  imports Main "HOL-Library.Multiset"
begin

section \<open>JavaScript values used by the schema\<close>

text \<open>
  The blog schema of \<^verbatim>\<open>src/src/schema.js\<close> works on three collections that it imports
  from data modules: \<^verbatim>\<open>PostsList\<close> (an array), \<^verbatim>\<open>UsersMap\<close> (an object used as a
  dictionary from lower-cased usernames to users) and \<^verbatim>\<open>CommentsList\<close> (an array).
  The resolvers read and mutate these collections in place; here every resolver takes the
  store and returns its result together with the store it leaves behind.
\<close>

subsection \<open>Numbers\<close>

text \<open>
  The numbers the resolvers compute with are identifiers, collection sizes and time values
  (milliseconds since the epoch), all integers that a double holds exactly, and \<^verbatim>\<open>NaN\<close>,
  the time value of an invalid \<^verbatim>\<open>Date\<close>.
\<close>

datatype jsnum = Num int | NaN

text \<open>The subtraction \<^verbatim>\<open>bTime - aTime\<close>: \<^verbatim>\<open>NaN\<close> is contagious.\<close>

fun minus_js :: "jsnum \<Rightarrow> jsnum \<Rightarrow> jsnum" where
  "minus_js (Num a) (Num b) = Num (a - b)"
| "minus_js _ _ = NaN"

subsection \<open>Strings\<close>

text \<open>
  A string is its sequence of UTF-16 code units; \<open>str\<close> writes one whose characters are
  ASCII. \<^verbatim>\<open>String.prototype.toLowerCase\<close> and \<^verbatim>\<open>toUpperCase\<close> are the case mappings of
  the Unicode tables that the engine carries. The resolvers that call \<^verbatim>\<open>toLowerCase\<close>
  take it as their first argument, so that what is proved of them with a variable in its
  place holds for every mapping, the engine's among them.
\<close>

type_synonym jsstring = "nat list"

definition str :: "string \<Rightarrow> jsstring" where
  "str s = map of_char s"

subsection \<open>Objects, dynamic values and truthiness\<close>

text \<open>
  The names of the properties that an object literal inherits from \<^verbatim>\<open>Object.prototype\<close>.
  Reading \<^verbatim>\<open>obj[name]\<close> finds them when the object has no property of that name itself.
\<close>

definition object_prototype_names :: "jsstring list" where
  "object_prototype_names =
     map str [''constructor'', ''__proto__'', ''hasOwnProperty'', ''isPrototypeOf'',
       ''propertyIsEnumerable'', ''toLocaleString'', ''toString'', ''valueOf'',
       ''__defineGetter__'', ''__defineSetter__'', ''__lookupGetter__'', ''__lookupSetter__'']"

text \<open>
  \<^verbatim>\<open>HasAuthor.resolveType\<close> receives an arbitrary object and tests two of its properties
  in a condition, so it needs JavaScript's values and their conversion to a boolean.
  \<open>JInherited name\<close> is the value of the property \<open>name\<close> of \<^verbatim>\<open>Object.prototype\<close>, a
  function or an object.
\<close>

datatype jsval =
    JUndefined
  | JNull
  | JBool bool
  | JNumber jsnum
  | JString jsstring
  | JArray "jsval list"
  | JObject "(jsstring \<times> jsval) list"
  | JInherited jsstring

fun truthy :: "jsval \<Rightarrow> bool" where
  "truthy JUndefined = False"
| "truthy JNull = False"
| "truthy (JBool b) = b"
| "truthy (JNumber (Num n)) = (n \<noteq> 0)"
| "truthy (JNumber NaN) = False"
| "truthy (JString s) = (s \<noteq> [])"
| "truthy (JArray _) = True"
| "truthy (JObject _) = True"
| "truthy (JInherited _) = True"

text \<open>
  Reading a property of an object: its own property, else the inherited one, else
  \<^verbatim>\<open>undefined\<close>.
\<close>

definition get_prop :: "(jsstring \<times> jsval) list \<Rightarrow> jsstring \<Rightarrow> jsval" where
  "get_prop obj name =
     (case map_of obj name of
        Some v \<Rightarrow> v
      | None \<Rightarrow> if name \<in> set object_prototype_names then JInherited name else JUndefined)"

subsection \<open>Arrays\<close>

text \<open>
  \<^verbatim>\<open>Array.prototype.slice(start, end)\<close>: a negative index counts from the end of the
  array, and both indices are clamped to the array.
\<close>

definition slice :: "'a list \<Rightarrow> int \<Rightarrow> int \<Rightarrow> 'a list" where
  "slice xs start fin =
     (let len = int (length xs);
          k = (if start < 0 then max (len + start) 0 else min start len);
          final = (if fin < 0 then max (len + fin) 0 else min fin len)
      in take (nat (final - k)) (drop (nat k) xs))"

subsection \<open>Errors\<close>

text \<open>
  The mutations throw \<^verbatim>\<open>new Error(message)\<close>; reading a property of \<^verbatim>\<open>undefined\<close> or
  calling a method that an object does not have throws a \<^verbatim>\<open>TypeError\<close>.
\<close>

datatype error = Error jsstring | TypeError

section \<open>Data model\<close>

datatype category = METEOR | PRODUCT | USER_STORY | OTHER

text \<open>The values of the enumeration, which are what the records store.\<close>

fun category_value :: "category \<Rightarrow> jsstring" where
  "category_value METEOR = str ''meteor''"
| "category_value PRODUCT = str ''product''"
| "category_value USER_STORY = str ''user-story''"
| "category_value OTHER = str ''other''"

record geoCoord =
  lat :: jsstring
  lng :: jsstring

record address =
  street :: jsstring
  suite :: jsstring
  city :: jsstring
  zipcode :: jsstring
  geo :: "geoCoord option"

record company =
  c_name :: jsstring
  catchPhrase :: jsstring
  bs :: jsstring

record user =
  u_id :: int
  u_name :: jsstring
  u_username :: jsstring
  u_email :: "jsstring option"
  u_address :: "address option"
  u_phone :: "jsstring option"
  u_website :: "jsstring option"
  u_company :: "company option"

record comment =
  cm_id :: int
  cm_postId :: int
  cm_name :: jsstring
  cm_email :: jsstring
  cm_body :: jsstring

text \<open>
  A \<^verbatim>\<open>Date\<close> instance is determined by its time value. The \<^verbatim>\<open>date\<close> property of a
  post is read in two ways by the schema: \<^verbatim>\<open>Post.timestamp\<close> calls
  \<^verbatim>\<open>post.date.getTime()\<close>, which needs a \<^verbatim>\<open>Date\<close> instance, as \<^verbatim>\<open>createPost\<close>
  stores one; the comparator of \<^verbatim>\<open>latestPost\<close> and \<^verbatim>\<open>recentPosts\<close> reads
  \<^verbatim>\<open>new Date(post.date['$date']).getTime()\<close>, which needs a plain object with a
  \<^verbatim>\<open>$date\<close> property. The property therefore has three shapes: missing, a \<^verbatim>\<open>Date\<close>
  instance, and an object \<^verbatim>\<open>{$date: v}\<close>, kept here as the time value of
  \<^verbatim>\<open>new Date(v)\<close>.
\<close>

datatype js_date = Date jsnum

fun getTime :: "js_date \<Rightarrow> jsnum" where
  "getTime (Date t) = t"

datatype date_value =
    Undefined
  | DateObject js_date
  | Extended jsnum

text \<open>
  The \<^verbatim>\<open>userId\<close> of a post is \<^const>\<open>None\<close> when it is \<^verbatim>\<open>undefined\<close>, as is the
  \<^verbatim>\<open>likeCount\<close>.
\<close>

record post =
  p_id :: int
  p_userId :: "int option"
  p_title :: jsstring
  p_body :: jsstring
  p_category :: "category option"
  p_likeCount :: "int option"
  p_author :: "jsstring option"
  p_date :: date_value

subsection \<open>The users object\<close>

text \<open>
  \<^verbatim>\<open>UsersMap\<close> is an object literal. Its own properties are an association list in the
  order in which \<^verbatim>\<open>_.values\<close> enumerates them: the keys that are array indices (the
  decimal numerals of the numbers below \<open>2\<^sup>3\<^sup>2 - 1\<close>) in ascending order, then the other
  keys in the order of their insertion. An object has each key once, so the length of the
  list is \<^verbatim>\<open>_.size(_.values(UsersMap))\<close>.
\<close>

definition array_index :: "jsstring \<Rightarrow> int option" where
  "array_index k =
     (if k = [] \<or> \<not> list_all (\<lambda>c. 48 \<le> c \<and> c \<le> 57) k \<or> (hd k = 48 \<and> length k > 1) then None
      else (let n = foldl (\<lambda>a c. 10 * a + (int c - 48)) 0 k
            in if n < 4294967295 then Some n else None))"

definition enumerated_before :: "jsstring \<Rightarrow> jsstring \<Rightarrow> bool" where
  "enumerated_before k k' =
     (case array_index k of
        None \<Rightarrow> False
      | Some n \<Rightarrow> (case array_index k' of None \<Rightarrow> True | Some n' \<Rightarrow> n < n'))"

text \<open>\<^verbatim>\<open>obj[k] = v\<close>: the value of an own key is replaced, a new key takes its place.\<close>

fun own_put :: "jsstring \<Rightarrow> 'v \<Rightarrow> (jsstring \<times> 'v) list \<Rightarrow> (jsstring \<times> 'v) list" where
  "own_put k v [] = [(k, v)]"
| "own_put k v ((k', v') # m) =
     (if k' = k then (k, v) # m
      else if enumerated_before k k' then (k, v) # (k', v') # m
      else (k', v') # own_put k v m)"

text \<open>
  \<^verbatim>\<open>UsersMap[k]\<close>: the user that is the own property \<open>k\<close>, else the property \<open>k\<close> of
  \<^verbatim>\<open>Object.prototype\<close>, else \<^verbatim>\<open>undefined\<close>. Only \<^verbatim>\<open>undefined\<close> is falsy, and an
  inherited value has no \<^verbatim>\<open>id\<close>.
\<close>

datatype users_entry = NoEntry | PrototypeValue jsstring | User user

definition users_get :: "(jsstring \<times> user) list \<Rightarrow> jsstring \<Rightarrow> users_entry" where
  "users_get m k =
     (case map_of m k of
        Some u \<Rightarrow> User u
      | None \<Rightarrow> if k \<in> set object_prototype_names then PrototypeValue k else NoEntry)"

fun entry_id :: "users_entry \<Rightarrow> int option" where
  "entry_id (User u) = Some (u_id u)"
| "entry_id (PrototypeValue _) = None"
| "entry_id NoEntry = None"

record store =
  posts :: "post list"
  users :: "(jsstring \<times> user) list"
  comments :: "comment list"

section \<open>Type registry: interface dispatch\<close>

datatype object_type = PostType | CommentType

text \<open>
  \<^verbatim>\<open>HasAuthor.resolveType\<close>: the conditions \<^verbatim>\<open>if(obj.title)\<close> and
  \<^verbatim>\<open>if(obj.replies)\<close> convert the property to a boolean; \<^verbatim>\<open>return null\<close> is
  \<^const>\<open>None\<close>.
\<close>

definition resolveType :: "(jsstring \<times> jsval) list \<Rightarrow> object_type option" where
  "resolveType obj =
     (if truthy (get_prop obj (str ''title'')) then Some PostType
      else if truthy (get_prop obj (str ''replies'')) then Some CommentType
      else None)"

text \<open>The properties of a post record that the dispatch can see.\<close>

definition post_object :: "post \<Rightarrow> (jsstring \<times> jsval) list" where
  "post_object p =
     [(str ''id'', JNumber (Num (p_id p))),
      (str ''userId'', (case p_userId p of None \<Rightarrow> JUndefined | Some i \<Rightarrow> JNumber (Num i))),
      (str ''title'', JString (p_title p)),
      (str ''body'', JString (p_body p))]"

section \<open>Field resolvers\<close>

text \<open>
  \<^verbatim>\<open>Post.timestamp\<close>: \<^verbatim>\<open>if(post.date) return new Date(post.date.getTime()); else
  return null\<close>. A missing date is falsy, every object is truthy; a plain object has no
  \<^verbatim>\<open>getTime\<close> method, and calling it throws.
\<close>

definition timestamp :: "post \<Rightarrow> error + js_date option" where
  "timestamp post =
     (case p_date post of
        Undefined \<Rightarrow> Inr None
      | DateObject d \<Rightarrow> Inr (Some (Date (getTime d)))
      | Extended _ \<Rightarrow> Inl TypeError)"

text \<open>
  \<^verbatim>\<open>Post.comments\<close>: the argument \<^verbatim>\<open>limit\<close> is \<^verbatim>\<open>undefined\<close> when the query does
  not give it, and \<^verbatim>\<open>undefined >= 0\<close> is false.
\<close>

definition post_comments :: "store \<Rightarrow> post \<Rightarrow> int option \<Rightarrow> comment list" where
  "post_comments s post limit =
     (let cList = filter (\<lambda>comment. p_id post = cm_postId comment) (comments s)
      in case limit of
           None \<Rightarrow> cList
         | Some l \<Rightarrow> if l \<ge> 0 then slice cList 0 l else cList)"

section \<open>Queries\<close>

text \<open>\<^verbatim>\<open>user\<close>: \<^verbatim>\<open>UsersMap[username.toLowerCase()]\<close>.\<close>

definition user_query :: "(jsstring \<Rightarrow> jsstring) \<Rightarrow> store \<Rightarrow> jsstring \<Rightarrow> users_entry" where
  "user_query toLowerCase s username = users_get (users s) (toLowerCase username)"

text \<open>
  The comparator of \<^verbatim>\<open>latestPost\<close> and \<^verbatim>\<open>recentPosts\<close>. Reading
  \<^verbatim>\<open>x.date['$date']\<close> throws when \<^verbatim>\<open>x.date\<close> is \<^verbatim>\<open>undefined\<close>; on a \<^verbatim>\<open>Date\<close>
  instance it is \<^verbatim>\<open>undefined\<close>, and \<^verbatim>\<open>new Date(undefined).getTime()\<close> is \<^verbatim>\<open>NaN\<close>.
\<close>

fun dollar_date_time :: "date_value \<Rightarrow> error + jsnum" where
  "dollar_date_time Undefined = Inl TypeError"
| "dollar_date_time (DateObject _) = Inr NaN"
| "dollar_date_time (Extended t) = Inr t"

definition by_date_desc :: "post \<Rightarrow> post \<Rightarrow> error + jsnum" where
  "by_date_desc a b =
     (case dollar_date_time (p_date b) of
        Inl e \<Rightarrow> Inl e
      | Inr bTime \<Rightarrow>
          (case dollar_date_time (p_date a) of
             Inl e \<Rightarrow> Inl e
           | Inr aTime \<Rightarrow> Inr (minus_js bTime aTime)))"

text \<open>
  \<^verbatim>\<open>Array.prototype.sort(comparefn)\<close>, as the V8 engine sorts an array of fewer than 64
  elements. The sort looks only at whether a result of the comparator is below zero, and
  \<^verbatim>\<open>NaN\<close> is not. It first takes the longest run at the front of the array that is
  already in order: with the second element before the first (comparator below zero) the
  run is strictly descending and is reversed, otherwise it is ascending. The elements
  after the run are then inserted one by one, each at the place that a binary search of
  the part sorted so far gives. The work is done on a copy, and the array is written back
  only when the sort has finished, so that an exception of the comparator leaves the
  array as it was. (On 64 elements and more the engine cuts the array into several runs
  and merges them; the result is the same whenever the comparator orders the elements
  consistently and wherever it is constant.)
\<close>

fun negative :: "jsnum \<Rightarrow> bool" where
  "negative (Num n) = (n < 0)"
| "negative NaN = False"

text \<open>
  The run is collected with its last element first. The loop stops at the first element
  that does not continue the run.
\<close>

fun extend_run ::
  "('a \<Rightarrow> 'a \<Rightarrow> error + jsnum) \<Rightarrow> bool \<Rightarrow> 'a \<Rightarrow> 'a list \<Rightarrow> 'a list \<Rightarrow> error + 'a list \<times> 'a list"
where
  "extend_run cmp descending previous run [] = Inr (previous # run, [])"
| "extend_run cmp descending previous run (current # xs) =
     (case cmp current previous of
        Inl e \<Rightarrow> Inl e
      | Inr order \<Rightarrow>
          if descending \<noteq> negative order then Inr (previous # run, current # xs)
          else extend_run cmp descending current (previous # run) xs)"

fun count_and_make_run ::
  "('a \<Rightarrow> 'a \<Rightarrow> error + jsnum) \<Rightarrow> 'a \<Rightarrow> 'a \<Rightarrow> 'a list \<Rightarrow> error + 'a list \<times> 'a list"
where
  "count_and_make_run cmp elementHigh elementLow xs =
     (case cmp elementLow elementHigh of
        Inl e \<Rightarrow> Inl e
      | Inr order \<Rightarrow>
          (case extend_run cmp (negative order) elementLow [elementHigh] xs of
             Inl e \<Rightarrow> Inl e
           | Inr (run, rest) \<Rightarrow> Inr (if negative order then run else rev run, rest)))"

function binary_search ::
  "('a \<Rightarrow> 'a \<Rightarrow> error + jsnum) \<Rightarrow> 'a \<Rightarrow> 'a list \<Rightarrow> nat \<Rightarrow> nat \<Rightarrow> error + nat"
where
  "binary_search cmp pivot arr left right =
     (if left < right then
        (let mid = left + (right - left) div 2
         in case cmp pivot (arr ! mid) of
              Inl e \<Rightarrow> Inl e
            | Inr order \<Rightarrow>
                if negative order then binary_search cmp pivot arr left mid
                else binary_search cmp pivot arr (mid + 1) right)
      else Inr left)"
  by pat_completeness auto
termination
  by (relation "measure (\<lambda>(cmp, pivot, arr, left, right). right - left)") auto

declare binary_search.simps [simp del]

fun binary_insertion_sort ::
  "('a \<Rightarrow> 'a \<Rightarrow> error + jsnum) \<Rightarrow> 'a list \<Rightarrow> 'a list \<Rightarrow> error + 'a list"
where
  "binary_insertion_sort cmp arr [] = Inr arr"
| "binary_insertion_sort cmp arr (pivot # xs) =
     (case binary_search cmp pivot arr 0 (length arr) of
        Inl e \<Rightarrow> Inl e
      | Inr left \<Rightarrow> binary_insertion_sort cmp (take left arr @ pivot # drop left arr) xs)"

definition array_sort :: "('a \<Rightarrow> 'a \<Rightarrow> error + jsnum) \<Rightarrow> 'a list \<Rightarrow> error + 'a list" where
  "array_sort cmp xs =
     (case xs of
        elementHigh # elementLow # ys \<Rightarrow>
          (case count_and_make_run cmp elementHigh elementLow ys of
             Inl e \<Rightarrow> Inl e
           | Inr (run, rest) \<Rightarrow> binary_insertion_sort cmp run rest)
      | _ \<Rightarrow> Inr xs)"

text \<open>
  \<^verbatim>\<open>latestPost\<close> sorts \<^verbatim>\<open>PostsList\<close> in place and returns \<^verbatim>\<open>PostsList[0]\<close>, which is
  \<^verbatim>\<open>undefined\<close> on an empty array.
\<close>

definition latestPost :: "store \<Rightarrow> (error + post option) \<times> store" where
  "latestPost s =
     (case array_sort by_date_desc (posts s) of
        Inl e \<Rightarrow> (Inl e, s)
      | Inr arr \<Rightarrow>
          (Inr (case arr of [] \<Rightarrow> None | p # _ \<Rightarrow> Some p), s\<lparr>posts := arr\<rparr>))"

text \<open>\<^verbatim>\<open>recentPosts\<close> sorts in the same way and returns \<^verbatim>\<open>PostsList.slice(0, count)\<close>.\<close>

definition recentPosts :: "store \<Rightarrow> int \<Rightarrow> (error + post list) \<times> store" where
  "recentPosts s cnt =
     (case array_sort by_date_desc (posts s) of
        Inl e \<Rightarrow> (Inl e, s)
      | Inr arr \<Rightarrow> (Inr (slice arr 0 cnt), s\<lparr>posts := arr\<rparr>))"

section \<open>Mutations\<close>

record createPost_args =
  a_title :: jsstring
  a_body :: jsstring
  a_category :: "category option"
  a_author :: jsstring

text \<open>
  \<^verbatim>\<open>createPost\<close>; \<^verbatim>\<open>now\<close> is the time value of \<^verbatim>\<open>new Date()\<close>. The condition
  \<^verbatim>\<open>if(!user)\<close> lets every value but \<^verbatim>\<open>undefined\<close> pass, and \<^verbatim>\<open>user.id\<close> is
  \<^verbatim>\<open>undefined\<close> on an inherited value. The post is the argument object itself, so it
  keeps the \<^verbatim>\<open>author\<close> argument, and it has no \<^verbatim>\<open>likeCount\<close>. The call of
  \<^verbatim>\<open>console.log\<close> writes the post to the standard output and changes nothing.
\<close>

definition createPost ::
  "(jsstring \<Rightarrow> jsstring) \<Rightarrow> store \<Rightarrow> int \<Rightarrow> createPost_args \<Rightarrow> (error + post) \<times> store"
where
  "createPost toLowerCase s now args =
     (case users_get (users s) (toLowerCase (a_author args)) of
        NoEntry \<Rightarrow> (Inl (Error (str ''No such author: '' @ a_author args)), s)
      | user \<Rightarrow>
          (let post = \<lparr>p_id = int (length (posts s)) + 1,
                       p_userId = entry_id user,
                       p_title = a_title args,
                       p_body = a_body args,
                       p_category = a_category args,
                       p_likeCount = None,
                       p_author = Some (a_author args),
                       p_date = DateObject (Date (Num now))\<rparr>
           in (Inr post, s\<lparr>posts := posts s @ [post]\<rparr>)))"

record createUser_args =
  a_username :: jsstring
  a_name :: jsstring
  a_email :: "jsstring option"

text \<open>
  \<^verbatim>\<open>createUser\<close>; the condition \<^verbatim>\<open>if(UsersMap[...])\<close> holds of a user and of an
  inherited value alike.
\<close>

definition createUser ::
  "(jsstring \<Rightarrow> jsstring) \<Rightarrow> store \<Rightarrow> createUser_args \<Rightarrow> (error + user) \<times> store"
where
  "createUser toLowerCase s args =
     (case users_get (users s) (toLowerCase (a_username args)) of
        NoEntry \<Rightarrow>
          (let user = \<lparr>u_id = int (length (users s)) + 1,
                       u_name = a_name args,
                       u_username = a_username args,
                       u_email = a_email args,
                       u_address = None,
                       u_phone = None,
                       u_website = None,
                       u_company = None\<rparr>
           in (Inr user, s\<lparr>users := own_put (toLowerCase (a_username args)) user (users s)\<rparr>))
      | _ \<Rightarrow> (Inl (Error (str ''User already exists: '' @ a_username args)), s))"

text \<open>Sequences of calls, each on the store that the call before it left.\<close>

fun createPosts ::
  "(jsstring \<Rightarrow> jsstring) \<Rightarrow> store \<Rightarrow> (int \<times> createPost_args) list \<Rightarrow> (error + post) list \<times> store"
where
  "createPosts toLowerCase s [] = ([], s)"
| "createPosts toLowerCase s ((now, args) # calls) =
     (case createPost toLowerCase s now args of
        (r, s') \<Rightarrow> (case createPosts toLowerCase s' calls of (rs, s'') \<Rightarrow> (r # rs, s'')))"

datatype mutation = CreatePost int createPost_args | CreateUser createUser_args

fun mutate :: "(jsstring \<Rightarrow> jsstring) \<Rightarrow> store \<Rightarrow> mutation \<Rightarrow> store" where
  "mutate toLowerCase s (CreatePost now args) = snd (createPost toLowerCase s now args)"
| "mutate toLowerCase s (CreateUser args) = snd (createUser toLowerCase s args)"

definition mutations :: "(jsstring \<Rightarrow> jsstring) \<Rightarrow> store \<Rightarrow> mutation list \<Rightarrow> store" where
  "mutations toLowerCase s ms = foldl (mutate toLowerCase) s ms"

text \<open>The second invariant of the store: every key is its user's lower-cased username.\<close>

definition keys_lowercased :: "(jsstring \<Rightarrow> jsstring) \<Rightarrow> store \<Rightarrow> bool" where
  "keys_lowercased toLowerCase s =
     (\<forall>k u. map_of (users s) k = Some u \<longrightarrow> k = toLowerCase (u_username u))"

text \<open>
  The time value that the comparator reads from a post whose date is an object
  \<^verbatim>\<open>{$date: v}\<close> with a valid \<^verbatim>\<open>v\<close>; no other post has one.
\<close>

definition dollar_ms :: "post \<Rightarrow> int option" where
  "dollar_ms p = (case p_date p of Extended (Num t) \<Rightarrow> Some t | _ \<Rightarrow> None)"

section \<open>Example data\<close>

text \<open>
  The case mappings of the engine on the strings whose code units are below 256 (Basic
  Latin and Latin-1 Supplement): \<^verbatim>\<open>toLowerCase\<close> maps \<^verbatim>\<open>A\<close> to \<^verbatim>\<open>Z\<close> and the letters
  U+00C0 to U+00D6 and U+00D8 to U+00DE to the code unit 32 above; \<^verbatim>\<open>toUpperCase\<close> maps
  their lower-case forms back, the sharp s (U+00DF) to \<^verbatim>\<open>SS\<close>, U+00FF to U+0178 and the
  micro sign (U+00B5) to U+039C. They stand for the engine's mappings in the examples, all
  of whose strings are of this kind.
\<close>

definition lower_unit :: "nat \<Rightarrow> nat" where
  "lower_unit c =
     (if (65 \<le> c \<and> c \<le> 90) \<or> (192 \<le> c \<and> c \<le> 214) \<or> (216 \<le> c \<and> c \<le> 222) then c + 32 else c)"

definition upper_units :: "nat \<Rightarrow> nat list" where
  "upper_units c =
     (if (97 \<le> c \<and> c \<le> 122) \<or> (224 \<le> c \<and> c \<le> 246) \<or> (248 \<le> c \<and> c \<le> 254) then [c - 32]
      else if c = 223 then [83, 83]
      else if c = 255 then [376]
      else if c = 181 then [924]
      else [c])"

definition lower_latin1 :: "jsstring \<Rightarrow> jsstring" where
  "lower_latin1 s = map lower_unit s"

definition upper_latin1 :: "jsstring \<Rightarrow> jsstring" where
  "upper_latin1 s = concat (map upper_units s)"

text \<open>
  The string \<^verbatim>\<open>stra\<close>, sharp s, \<^verbatim>\<open>e\<close>; a store with the user \<^verbatim>\<open>Alice\<close> and no posts; the arguments of
  some calls, among them calls that name \<^verbatim>\<open>constructor\<close>, a property that every object
  inherits; and the posts of the scenario of the specification (dates 2021-01-01,
  2023-05-01 and 2022-06-01 as milliseconds since the epoch), once with \<^verbatim>\<open>{$date: v}\<close>
  objects and once with \<^verbatim>\<open>Date\<close> instances.
\<close>

definition strasse :: jsstring where
  "strasse = str ''stra'' @ [223] @ str ''e''"

definition empty_title_post :: post where
  "empty_title_post = \<lparr>p_id = 1, p_userId = Some 1, p_title = [], p_body = str ''B'', p_category = None,
     p_likeCount = None, p_author = Some (str ''alice''), p_date = DateObject (Date (Num 0))\<rparr>"

definition alice :: user where
  "alice = \<lparr>u_id = 1, u_name = str ''Alice'', u_username = str ''Alice'', u_email = None,
     u_address = None, u_phone = None, u_website = None, u_company = None\<rparr>"

definition store0 :: store where
  "store0 = \<lparr>posts = [], users = [(str ''alice'', alice)], comments = []\<rparr>"

definition args_T :: createPost_args where
  "args_T = \<lparr>a_title = str ''T'', a_body = str ''B'', a_category = None, a_author = str ''Alice''\<rparr>"

definition cm :: "int \<Rightarrow> int \<Rightarrow> comment" where
  "cm i pid = \<lparr>cm_id = i, cm_postId = pid, cm_name = str ''n'', cm_email = str ''e'', cm_body = str ''b''\<rparr>"

definition store_comments :: store where
  "store_comments = \<lparr>posts = [empty_title_post], users = [(str ''alice'', alice)],
     comments = [cm 1 1, cm 2 2, cm 3 1, cm 4 1, cm 5 2, cm 6 1, cm 7 1]\<rparr>"

definition args_bob :: createUser_args where
  "args_bob = \<lparr>a_username = str ''Bob'', a_name = str ''Bob B'', a_email = None\<rparr>"

definition args_nobody :: createPost_args where
  "args_nobody = \<lparr>a_title = str ''T'', a_body = str ''B'', a_category = Some OTHER, a_author = str ''Carol''\<rparr>"

definition args_alice :: createUser_args where
  "args_alice = \<lparr>a_username = str ''ALICE'', a_name = str ''Another'', a_email = None\<rparr>"

definition args_constructor :: createPost_args where
  "args_constructor = \<lparr>a_title = str ''T'', a_body = str ''B'', a_category = None,
     a_author = str ''constructor''\<rparr>"

definition user_args_constructor :: createUser_args where
  "user_args_constructor = \<lparr>a_username = str ''constructor'', a_name = str ''C'', a_email = None\<rparr>"

definition strasse_user :: user where
  "strasse_user = \<lparr>u_id = 2, u_name = str ''S'', u_username = strasse, u_email = None,
     u_address = None, u_phone = None, u_website = None, u_company = None\<rparr>"

definition store_strasse :: store where
  "store_strasse = \<lparr>posts = [], users = [(str ''alice'', alice), (strasse, strasse_user)],
     comments = []\<rparr>"

definition muts :: "mutation list" where
  "muts = [CreateUser args_bob, CreatePost 10 (args_T\<lparr>a_author := str ''BOB''\<rparr>),
           CreateUser args_alice, CreatePost 20 args_nobody]"

definition one_post_store :: store where
  "one_post_store = \<lparr>posts = [empty_title_post\<lparr>p_date := Extended (Num 1609459200000)\<rparr>],
     users = [(str ''alice'', alice)], comments = []\<rparr>"

definition scenario_store :: store where
  "scenario_store = \<lparr>posts =
      [empty_title_post\<lparr>p_id := 1, p_date := Extended (Num 1609459200000)\<rparr>,
       empty_title_post\<lparr>p_id := 2, p_date := Extended (Num 1682899200000)\<rparr>,
       empty_title_post\<lparr>p_id := 3, p_date := Extended (Num 1654041600000)\<rparr>],
     users = [(str ''alice'', alice)], comments = []\<rparr>"

definition scenario_store_dates :: store where
  "scenario_store_dates = \<lparr>posts =
      [empty_title_post\<lparr>p_id := 1, p_date := DateObject (Date (Num 1609459200000))\<rparr>,
       empty_title_post\<lparr>p_id := 2, p_date := DateObject (Date (Num 1682899200000))\<rparr>,
       empty_title_post\<lparr>p_id := 3, p_date := DateObject (Date (Num 1654041600000))\<rparr>],
     users = [(str ''alice'', alice)], comments = []\<rparr>"

section \<open>Auxiliary facts\<close>

subsection \<open>Strings and slices\<close>

lemma str_eq_iff: "str a = str b \<longleftrightarrow> a = b"
proof -
  have "inj (of_char :: char \<Rightarrow> nat)" by (simp add: inj_on_def)
  then show ?thesis by (simp add: str_def inj_map_eq_map)
qed

lemma lower_Alice: "lower_latin1 (str ''Alice'') = str ''alice''"
  by code_simp

lemma lower_ALICE: "lower_latin1 (str ''ALICE'') = str ''alice''"
  by code_simp

lemma lower_Bob: "lower_latin1 (str ''Bob'') = str ''bob''"
  by code_simp

lemma lower_BOB: "lower_latin1 (str ''BOB'') = str ''bob''"
  by code_simp

lemma lower_Carol: "lower_latin1 (str ''Carol'') = str ''carol''"
  by code_simp

lemma lower_constructor: "lower_latin1 (str ''constructor'') = str ''constructor''"
  by code_simp

lemma lower_strasse: "lower_latin1 strasse = strasse"
  by code_simp

lemma upper_strasse: "upper_latin1 strasse = str ''STRASSE''"
  by code_simp

lemma lower_STRASSE: "lower_latin1 (str ''STRASSE'') = str ''strasse''"
  by code_simp

lemma upper_Alice: "upper_latin1 (str ''Alice'') = str ''ALICE''"
  by code_simp

lemma upper_Bob: "upper_latin1 (str ''Bob'') = str ''BOB''"
  by code_simp

lemma lower_upper_ascii_unit: "c < 128 \<Longrightarrow> map lower_unit (upper_units c) = [lower_unit c]"
  by (auto simp: lower_unit_def upper_units_def)

lemma lower_upper_ascii:
  "\<forall>c \<in> set s. c < 128 \<Longrightarrow> lower_latin1 (upper_latin1 s) = lower_latin1 s"
  by (induction s) (simp_all add: lower_latin1_def upper_latin1_def lower_upper_ascii_unit)

lemma title_own: "str ''title'' \<notin> set object_prototype_names"
  by code_simp

lemma replies_own: "str ''replies'' \<notin> set object_prototype_names"
  by code_simp

lemma constructor_inherited: "str ''constructor'' \<in> set object_prototype_names"
  by code_simp

lemma names_of_users_own:
  "str ''alice'' \<notin> set object_prototype_names" "str ''bob'' \<notin> set object_prototype_names"
  "str ''carol'' \<notin> set object_prototype_names" "str ''dave'' \<notin> set object_prototype_names"
  "str ''strasse'' \<notin> set object_prototype_names" "strasse \<notin> set object_prototype_names"
  by code_simp+

lemma names_differ:
  "str ''bob'' \<noteq> str ''alice''" "str ''carol'' \<noteq> str ''alice''" "str ''dave'' \<noteq> str ''alice''"
  "str ''constructor'' \<noteq> str ''alice''" "str ''strasse'' \<noteq> str ''alice''"
  "strasse \<noteq> str ''alice''" "str ''strasse'' \<noteq> strasse"
  by code_simp+

lemma slice_prefix: "0 \<le> n \<Longrightarrow> slice xs 0 n = take (nat n) xs"
  by (simp add: slice_def Let_def min_def)

lemma slice_drop_last: "n < 0 \<Longrightarrow> slice xs 0 n = take (length xs - nat (- n)) xs"
proof -
  assume "n < 0"
  then have "nat (max (int (length xs) + n) 0) = length xs - nat (- n)"
    by (simp add: max_def) arith
  with \<open>n < 0\<close> show ?thesis by (simp add: slice_def Let_def)
qed

lemma slice_all_but_last:
  "n < 0 \<Longrightarrow> \<exists>dropped. xs = slice xs 0 n @ dropped \<and> length dropped = min (nat (- n)) (length xs)"
proof -
  assume n: "n < 0"
  have "xs = take (length xs - nat (- n)) xs @ drop (length xs - nat (- n)) xs" by simp
  moreover have "length (drop (length xs - nat (- n)) xs) = min (nat (- n)) (length xs)" by simp
  ultimately show ?thesis unfolding slice_drop_last [OF n] by blast
qed

subsection \<open>The users object\<close>

text \<open>
  Writing a key makes it the key of the value written and leaves the others. A key that is
  not an array index is enumerated last, and one that is an array index before every key
  that is not.
\<close>

lemma map_of_own_put: "map_of (own_put k v m) = (map_of m)(k \<mapsto> v)"
  by (induction m) (auto simp: fun_eq_iff)

lemma length_own_put: "map_of m k = None \<Longrightarrow> length (own_put k v m) = Suc (length m)"
  by (induction m) (auto split: if_splits)

lemma own_put_appends:
  "map_of m k = None \<Longrightarrow> array_index k = None \<Longrightarrow> own_put k v m = m @ [(k, v)]"
  by (induction m) (auto simp: enumerated_before_def split: if_splits)

lemma own_put_array_index:
  "own_put (str ''7'') v [(str ''3'', a), (str ''10'', b), (str ''bob'', c)] =
     [(str ''3'', a), (str ''7'', v), (str ''10'', b), (str ''bob'', c)]"
proof -
  have "array_index (str ''7'') = Some 7" "array_index (str ''3'') = Some 3"
    "array_index (str ''10'') = Some 10"
    by code_simp+
  then show ?thesis by (simp add: enumerated_before_def str_eq_iff)
qed

lemma users_get_NoEntry:
  "users_get m k = NoEntry \<longleftrightarrow> map_of m k = None \<and> k \<notin> set object_prototype_names"
  by (simp add: users_get_def split: option.splits)

lemma users_get_User: "users_get m k = User u \<longleftrightarrow> map_of m k = Some u"
  by (simp add: users_get_def split: option.splits)

lemma users_get_PrototypeValue:
  "users_get m k = PrototypeValue n \<longleftrightarrow> map_of m k = None \<and> k \<in> set object_prototype_names \<and> n = k"
  by (auto simp: users_get_def split: option.splits)

subsection \<open>The two mutations\<close>

text \<open>
  \<^verbatim>\<open>createPost\<close> throws exactly when \<^verbatim>\<open>UsersMap\<close> has no value, own or inherited, under
  the lower-cased author, and \<^verbatim>\<open>createUser\<close> exactly when it has one under the
  lower-cased username. A call that throws leaves the store; one that returns makes one
  entry. From an empty collection the posts made have the identifiers 1, 2, ... and each
  post whose lower-cased author is a key of the users has the \<^verbatim>\<open>id\<close> of that user.
\<close>

lemma createPost_error:
  "users_get (users s) (lc (a_author args)) = NoEntry \<Longrightarrow>
   createPost lc s now args = (Inl (Error (str ''No such author: '' @ a_author args)), s)"
  by (simp add: createPost_def)

lemma createPost_success:
  "users_get (users s) (lc (a_author args)) \<noteq> NoEntry \<Longrightarrow>
   \<exists>p. createPost lc s now args = (Inr p, s\<lparr>posts := posts s @ [p]\<rparr>) \<and>
       p_id p = int (length (posts s)) + 1 \<and>
       p_userId p = entry_id (users_get (users s) (lc (a_author args))) \<and>
       p_title p = a_title args \<and> p_body p = a_body args \<and>
       p_category p = a_category args \<and> p_author p = Some (a_author args) \<and>
       p_likeCount p = None \<and> p_date p = DateObject (Date (Num now))"
  by (cases "users_get (users s) (lc (a_author args))") (simp_all add: createPost_def Let_def)

lemma createUser_error:
  "users_get (users s) (lc (a_username args)) \<noteq> NoEntry \<Longrightarrow>
   createUser lc s args = (Inl (Error (str ''User already exists: '' @ a_username args)), s)"
  by (cases "users_get (users s) (lc (a_username args))") (simp_all add: createUser_def)

lemma createUser_success:
  "users_get (users s) (lc (a_username args)) = NoEntry \<Longrightarrow>
   \<exists>u. createUser lc s args = (Inr u, s\<lparr>users := own_put (lc (a_username args)) u (users s)\<rparr>) \<and>
       u_id u = int (length (users s)) + 1 \<and> u_username u = a_username args \<and>
       u_name u = a_name args \<and> u_email u = a_email args"
  by (simp add: createUser_def Let_def)

lemma createPost_atomic:
  "(isl (fst (createPost lc s now args)) \<longleftrightarrow> users_get (users s) (lc (a_author args)) = NoEntry) \<and>
   (isl (fst (createPost lc s now args)) \<longrightarrow> snd (createPost lc s now args) = s) \<and>
   (\<forall>p. fst (createPost lc s now args) = Inr p \<longrightarrow>
        snd (createPost lc s now args) = s\<lparr>posts := posts s @ [p]\<rparr>)"
proof (cases "users_get (users s) (lc (a_author args)) = NoEntry")
  case True
  then show ?thesis using createPost_error [where lc = lc and s = s and args = args and now = now, OF True] by simp
next
  case False
  then show ?thesis using createPost_success [where lc = lc and s = s and args = args and now = now, OF False] by auto
qed

lemma createUser_atomic:
  "(isl (fst (createUser lc s args)) \<longleftrightarrow> users_get (users s) (lc (a_username args)) \<noteq> NoEntry) \<and>
   (isl (fst (createUser lc s args)) \<longrightarrow> snd (createUser lc s args) = s) \<and>
   (\<forall>u. fst (createUser lc s args) = Inr u \<longrightarrow>
        posts (snd (createUser lc s args)) = posts s \<and>
        comments (snd (createUser lc s args)) = comments s \<and>
        map_of (users (snd (createUser lc s args))) = (map_of (users s))(lc (a_username args) \<mapsto> u) \<and>
        length (users (snd (createUser lc s args))) = Suc (length (users s)))"
proof (cases "users_get (users s) (lc (a_username args)) = NoEntry")
  case True
  then have "map_of (users s) (lc (a_username args)) = None" by (simp add: users_get_NoEntry)
  then show ?thesis using createUser_success [where lc = lc and s = s and args = args, OF True] True
    by (auto simp: map_of_own_put length_own_put)
next
  case False
  then show ?thesis using createUser_error [where lc = lc and s = s and args = args, OF False] by simp
qed

lemma createPost_users: "users (snd (createPost lc s now args)) = users s"
  by (cases "users_get (users s) (lc (a_author args))") (simp_all add: createPost_def Let_def)

lemma createUser_keys_lowercased:
  "keys_lowercased lc s \<Longrightarrow> keys_lowercased lc (snd (createUser lc s args))"
proof (cases "users_get (users s) (lc (a_username args)) = NoEntry")
  case True
  assume inv: "keys_lowercased lc s"
  from createUser_success [where lc = lc and s = s and args = args, OF True] obtain u where
    u: "createUser lc s args = (Inr u, s\<lparr>users := own_put (lc (a_username args)) u (users s)\<rparr>)"
       "u_username u = a_username args"
    by blast
  show ?thesis
    unfolding keys_lowercased_def
  proof (intro allI impI)
    fix k v
    assume "map_of (users (snd (createUser lc s args))) k = Some v"
    with u(1) have "map_of (users s) k = Some v \<or> (k = lc (a_username args) \<and> v = u)"
      by (auto simp: map_of_own_put split: if_splits)
    with inv u(2) show "k = lc (u_username v)"
      by (auto simp: keys_lowercased_def)
  qed
next
  case False
  assume "keys_lowercased lc s"
  with createUser_error [where lc = lc and s = s and args = args, OF False] show ?thesis by simp
qed

lemma mutate_keys_lowercased: "keys_lowercased lc s \<Longrightarrow> keys_lowercased lc (mutate lc s m)"
proof (cases m)
  case (CreatePost now args)
  assume "keys_lowercased lc s"
  then show ?thesis
    by (simp add: CreatePost keys_lowercased_def createPost_users)
next
  case (CreateUser args)
  assume "keys_lowercased lc s"
  then show ?thesis
    by (simp add: CreateUser createUser_keys_lowercased)
qed

lemma keys_lowercased_store0: "keys_lowercased lower_latin1 store0"
  by (auto simp: keys_lowercased_def store0_def alice_def lower_Alice split: if_splits)

lemma createPosts_from:
  "fst (createPosts lc s calls) = map Inr ps \<Longrightarrow>
   map p_id ps = map (\<lambda>i. int (length (posts s)) + 1 + int i) [0..<length calls] \<and>
   list_all2 (\<lambda>call p. users_get (users s) (lc (a_author (snd call))) \<noteq> NoEntry \<and>
       p_userId p = entry_id (users_get (users s) (lc (a_author (snd call))))) calls ps \<and>
   posts (snd (createPosts lc s calls)) = posts s @ ps \<and>
   users (snd (createPosts lc s calls)) = users s"
proof (induction calls arbitrary: s ps)
  case Nil
  then show ?case by simp
next
  case (Cons call calls)
  obtain now args where call: "call = (now, args)" by (cases call)
  obtain r s1 where r: "createPost lc s now args = (r, s1)" by (cases "createPost lc s now args")
  obtain rs s2 where rs: "createPosts lc s1 calls = (rs, s2)" by (cases "createPosts lc s1 calls")
  from Cons.prems call r rs have eq: "r # rs = map Inr ps" by simp
  then obtain p qs where ps: "ps = p # qs" "r = Inr p" "rs = map Inr qs" by (cases ps) auto
  from r ps(2) have u: "users_get (users s) (lc (a_author args)) \<noteq> NoEntry"
    using createPost_error [where lc = lc and s = s and args = args and now = now] by auto
  from createPost_success [where lc = lc and s = s and args = args and now = now, OF u] r ps(2)
  have p: "s1 = s\<lparr>posts := posts s @ [p]\<rparr>" "p_id p = int (length (posts s)) + 1"
    "p_userId p = entry_id (users_get (users s) (lc (a_author args)))"
    by auto
  from rs ps(3) have "fst (createPosts lc s1 calls) = map Inr qs" by simp
  from Cons.IH [OF this] rs p(1)
  have ih: "map p_id qs = map (\<lambda>i. int (length (posts s)) + 1 + 1 + int i) [0..<length calls]"
    "list_all2 (\<lambda>call p. users_get (users s) (lc (a_author (snd call))) \<noteq> NoEntry \<and>
       p_userId p = entry_id (users_get (users s) (lc (a_author (snd call))))) calls qs"
    "posts s2 = posts s @ [p] @ qs" "users s2 = users s"
    by simp_all
  have "map (\<lambda>i. int (length (posts s)) + 1 + int i) [0..<length (call # calls)] =
        (int (length (posts s)) + 1) # map (\<lambda>i. int (length (posts s)) + 1 + 1 + int i) [0..<length calls]"
    by (simp add: upt_conv_Cons map_Suc_upt [symmetric] del: upt_Suc)
  with ih p ps u call r rs show ?case by simp
qed

lemma createPosts_total:
  "\<forall>call \<in> set calls. users_get (users s) (lc (a_author (snd call))) \<noteq> NoEntry \<Longrightarrow>
   \<exists>ps. fst (createPosts lc s calls) = map Inr ps"
proof (induction calls arbitrary: s)
  case Nil
  then show ?case by simp
next
  case (Cons call calls)
  obtain now args where call: "call = (now, args)" by (cases call)
  from Cons.prems call have u: "users_get (users s) (lc (a_author args)) \<noteq> NoEntry"
    by auto
  from createPost_success [where lc = lc and s = s and args = args and now = now, OF u] obtain p where
    p: "createPost lc s now args = (Inr p, s\<lparr>posts := posts s @ [p]\<rparr>)" by blast
  from Cons.prems have "\<forall>call \<in> set calls.
      users_get (users (s\<lparr>posts := posts s @ [p]\<rparr>)) (lc (a_author (snd call))) \<noteq> NoEntry"
    by simp
  from Cons.IH [OF this] obtain qs where
    qs: "fst (createPosts lc (s\<lparr>posts := posts s @ [p]\<rparr>) calls) = map Inr qs" by blast
  obtain rs s2 where "createPosts lc (s\<lparr>posts := posts s @ [p]\<rparr>) calls = (rs, s2)"
    by (cases "createPosts lc (s\<lparr>posts := posts s @ [p]\<rparr>) calls")
  with qs call p have "fst (createPosts lc s (call # calls)) = map Inr (p # qs)"
    by simp
  then show ?case by blast
qed

lemma createPosts_ids:
  assumes "posts s = []" and "fst (createPosts lc s calls) = map Inr ps"
  shows "length ps = length calls \<and>
         map p_id ps = [1..int (length calls)] \<and>
         (\<forall>i < length calls. \<forall>u.
             map_of (users s) (lc (a_author (snd (calls ! i)))) = Some u \<longrightarrow>
             p_userId (ps ! i) = Some (u_id u)) \<and>
         posts (snd (createPosts lc s calls)) = ps"
proof -
  from createPosts_from [OF assms(2)] assms(1)
  have ids: "map p_id ps = map (\<lambda>i. 1 + int i) [0..<length calls]"
    and rel: "list_all2 (\<lambda>call p. users_get (users s) (lc (a_author (snd call))) \<noteq> NoEntry \<and>
       p_userId p = entry_id (users_get (users s) (lc (a_author (snd call))))) calls ps"
    and fin: "posts (snd (createPosts lc s calls)) = ps"
    by simp_all
  have "map (\<lambda>i. 1 + int i) [0..<n] = [1..int n]" for n
    by (induction n) (simp_all add: upto_rec2)
  with ids have "map p_id ps = [1..int (length calls)]" by simp
  moreover from rel have "length ps = length calls" by (simp add: list_all2_lengthD)
  moreover from rel have "\<forall>i < length calls. \<forall>u.
             map_of (users s) (lc (a_author (snd (calls ! i)))) = Some u \<longrightarrow>
             p_userId (ps ! i) = Some (u_id u)"
    by (auto simp: list_all2_conv_all_nth users_get_def)
  ultimately show ?thesis using fin by simp
qed

subsection \<open>The sort\<close>

text \<open>
  Between two \<^verbatim>\<open>Date\<close> instances the comparator gives \<^verbatim>\<open>NaN\<close>, and it throws when a
  post has no date. The sort returns a permutation of the array whenever it returns. When
  every date is an object \<^verbatim>\<open>{$date: v}\<close> with a valid \<^verbatim>\<open>v\<close>, it returns, and the array
  is then in descending order of date: the run found at the front is in that order, and
  the binary search places each further element behind the elements that are not older
  and before those that are.
\<close>

lemma by_date_desc_undefined:
  "p_date a = Undefined \<or> p_date b = Undefined \<Longrightarrow> by_date_desc a b = Inl TypeError"
  by (cases "p_date a"; cases "p_date b") (auto simp: by_date_desc_def)

lemma by_date_desc_date_object:
  "p_date a = DateObject d \<Longrightarrow> p_date b = DateObject e \<Longrightarrow> by_date_desc a b = Inr NaN"
  by (simp add: by_date_desc_def)

lemma by_date_desc_ms:
  "dollar_ms a = Some ta \<Longrightarrow> dollar_ms b = Some tb \<Longrightarrow> by_date_desc a b = Inr (Num (tb - ta))"
  by (auto simp: dollar_ms_def by_date_desc_def split: date_value.splits jsnum.splits)

lemma extend_run_order:
  "extend_run cmp d previous run xs = Inr (r, rest) \<Longrightarrow> rev r @ rest = rev (previous # run) @ xs"
  by (induction xs arbitrary: previous run) (auto split: sum.splits if_splits)

lemma count_and_make_run_mset:
  "count_and_make_run cmp x0 x1 xs = Inr (run, rest) \<Longrightarrow>
   mset run + mset rest = mset (x0 # x1 # xs)"
proof -
  assume a: "count_and_make_run cmp x0 x1 xs = Inr (run, rest)"
  then obtain order r where o: "cmp x1 x0 = Inr order"
    and r: "extend_run cmp (negative order) x1 [x0] xs = Inr (r, rest)"
    and run: "run = (if negative order then r else rev r)"
    by (auto split: sum.splits)
  from extend_run_order [OF r] have "mset (rev r @ rest) = mset (rev [x1, x0] @ xs)" by simp
  with run show ?thesis by (simp split: if_splits)
qed

lemma binary_insertion_sort_mset:
  "binary_insertion_sort cmp arr xs = Inr zs \<Longrightarrow> mset zs = mset arr + mset xs"
proof (induction xs arbitrary: arr)
  case Nil
  then show ?case by simp
next
  case (Cons pivot xs)
  then obtain left where
    "binary_insertion_sort cmp (take left arr @ pivot # drop left arr) xs = Inr zs"
    by (auto split: sum.splits)
  from Cons.IH [OF this] have "mset zs = mset (take left arr @ pivot # drop left arr) + mset xs" .
  moreover have "mset (take left arr @ pivot # drop left arr) = add_mset pivot (mset arr)"
    using append_take_drop_id [of left arr] by (metis mset_append union_mset_add_mset_right mset.simps(2))
  ultimately show ?case by simp
qed

lemma array_sort_mset: "array_sort cmp xs = Inr zs \<Longrightarrow> mset zs = mset xs"
proof (cases xs)
  case Nil
  assume "array_sort cmp xs = Inr zs"
  with Nil show ?thesis by (simp add: array_sort_def)
next
  case (Cons x0 ys)
  assume a: "array_sort cmp xs = Inr zs"
  show ?thesis
  proof (cases ys)
    case Nil
    with a Cons show ?thesis by (simp add: array_sort_def)
  next
    case (Cons x1 ws)
    with a \<open>xs = x0 # ys\<close> obtain run rest where
      r: "count_and_make_run cmp x0 x1 ws = Inr (run, rest)"
      and b: "binary_insertion_sort cmp run rest = Inr zs"
      by (auto simp: array_sort_def split: sum.splits simp del: count_and_make_run.simps)
    from count_and_make_run_mset [OF r] binary_insertion_sort_mset [OF b] Cons \<open>xs = x0 # ys\<close>
    show ?thesis by simp
  qed
qed

lemma extend_run_ascending:
  assumes "\<forall>y \<in> set (previous # run @ xs). dollar_ms y \<noteq> None"
    and "sorted_wrt (\<lambda>a b. the (dollar_ms a) \<le> the (dollar_ms b)) (previous # run)"
  shows "\<exists>r rest. extend_run by_date_desc False previous run xs = Inr (r, rest) \<and>
           sorted_wrt (\<lambda>a b. the (dollar_ms a) \<le> the (dollar_ms b)) r"
  using assms
proof (induction xs arbitrary: previous run)
  case Nil
  then show ?case by simp
next
  case (Cons current xs)
  from Cons.prems(1) obtain tc tp where
    t: "dollar_ms current = Some tc" "dollar_ms previous = Some tp" by auto
  then have c: "by_date_desc current previous = Inr (Num (tp - tc))" by (rule by_date_desc_ms)
  show ?case
  proof (cases "tp - tc < 0")
    case True
    with c Cons.prems(2) show ?thesis by simp
  next
    case False
    with t Cons.prems(2)
    have s: "sorted_wrt (\<lambda>a b. the (dollar_ms a) \<le> the (dollar_ms b)) (current # previous # run)"
      by auto
    from Cons.prems(1) have "\<forall>y \<in> set (current # (previous # run) @ xs). dollar_ms y \<noteq> None"
      by auto
    from Cons.IH [OF this s] c False show ?thesis by simp
  qed
qed

lemma extend_run_descending:
  assumes "\<forall>y \<in> set (previous # run @ xs). dollar_ms y \<noteq> None"
    and "sorted_wrt (\<lambda>a b. the (dollar_ms a) > the (dollar_ms b)) (previous # run)"
  shows "\<exists>r rest. extend_run by_date_desc True previous run xs = Inr (r, rest) \<and>
           sorted_wrt (\<lambda>a b. the (dollar_ms a) > the (dollar_ms b)) r"
  using assms
proof (induction xs arbitrary: previous run)
  case Nil
  then show ?case by simp
next
  case (Cons current xs)
  from Cons.prems(1) obtain tc tp where
    t: "dollar_ms current = Some tc" "dollar_ms previous = Some tp" by auto
  then have c: "by_date_desc current previous = Inr (Num (tp - tc))" by (rule by_date_desc_ms)
  show ?case
  proof (cases "tp - tc < 0")
    case False
    with c Cons.prems(2) show ?thesis by simp
  next
    case True
    with t Cons.prems(2)
    have s: "sorted_wrt (\<lambda>a b. the (dollar_ms a) > the (dollar_ms b)) (current # previous # run)"
      by auto
    from Cons.prems(1) have "\<forall>y \<in> set (current # (previous # run) @ xs). dollar_ms y \<noteq> None"
      by auto
    from Cons.IH [OF this s] c True show ?thesis by simp
  qed
qed

lemma count_and_make_run_sorted:
  assumes "\<forall>y \<in> set (x0 # x1 # xs). dollar_ms y \<noteq> None"
  shows "\<exists>run rest. count_and_make_run by_date_desc x0 x1 xs = Inr (run, rest) \<and>
           sorted_wrt (\<lambda>a b. the (dollar_ms a) \<ge> the (dollar_ms b)) run"
proof -
  from assms obtain t0 t1 where t: "dollar_ms x0 = Some t0" "dollar_ms x1 = Some t1" by auto
  then have c: "by_date_desc x1 x0 = Inr (Num (t0 - t1))" by (intro by_date_desc_ms)
  from assms have all: "\<forall>y \<in> set (x1 # [x0] @ xs). dollar_ms y \<noteq> None" by auto
  show ?thesis
  proof (cases "t0 - t1 < 0")
    case True
    with t have "sorted_wrt (\<lambda>a b. the (dollar_ms a) > the (dollar_ms b)) [x1, x0]" by simp
    from extend_run_descending [OF all this] obtain r rest where
      r: "extend_run by_date_desc True x1 [x0] xs = Inr (r, rest)"
         "sorted_wrt (\<lambda>a b. the (dollar_ms a) > the (dollar_ms b)) r" by blast
    from r(2) have "sorted_wrt (\<lambda>a b. the (dollar_ms a) \<ge> the (dollar_ms b)) r"
      by (rule sorted_wrt_mono_rel [rotated]) simp
    with c True r(1) show ?thesis by simp
  next
    case False
    with t have "sorted_wrt (\<lambda>a b. the (dollar_ms a) \<le> the (dollar_ms b)) [x1, x0]" by simp
    from extend_run_ascending [OF all this] obtain r rest where
      r: "extend_run by_date_desc False x1 [x0] xs = Inr (r, rest)"
         "sorted_wrt (\<lambda>a b. the (dollar_ms a) \<le> the (dollar_ms b)) r" by blast
    from r(2) have "sorted_wrt (\<lambda>a b. the (dollar_ms a) \<ge> the (dollar_ms b)) (rev r)"
      by (simp add: sorted_wrt_rev)
    with c False r(1) show ?thesis by simp
  qed
qed

lemma binary_search_place:
  assumes "dollar_ms pivot = Some tp" and "\<forall>x \<in> set arr. dollar_ms x \<noteq> None"
    and "sorted_wrt (\<lambda>a b. the (dollar_ms a) \<ge> the (dollar_ms b)) arr"
  shows "left \<le> right \<Longrightarrow> right \<le> length arr \<Longrightarrow>
         \<forall>x \<in> set (take left arr). tp \<le> the (dollar_ms x) \<Longrightarrow>
         \<forall>x \<in> set (drop right arr). the (dollar_ms x) < tp \<Longrightarrow>
         \<exists>i. binary_search by_date_desc pivot arr left right = Inr i \<and>
             (\<forall>x \<in> set (take i arr). tp \<le> the (dollar_ms x)) \<and>
             (\<forall>x \<in> set (drop i arr). the (dollar_ms x) < tp)"
proof (induction "right - left" arbitrary: left right rule: less_induct)
  case less
  show ?case
  proof (cases "left < right")
    case False
    with less.prems(1) have "left = right" by simp
    with less.prems show ?thesis by (subst binary_search.simps) simp
  next
    case True
    define mid where "mid = left + (right - left) div 2"
    from True have m: "left \<le> mid" "mid < right" by (auto simp: mid_def)
    with less.prems(2) have len: "mid < length arr" by simp
    with assms(2) obtain tmid where tmid: "dollar_ms (arr ! mid) = Some tmid"
      by (metis nth_mem not_Some_eq)
    have c: "by_date_desc pivot (arr ! mid) = Inr (Num (tmid - tp))"
      using assms(1) tmid by (rule by_date_desc_ms)
    from len have split: "arr = take mid arr @ arr ! mid # drop (Suc mid) arr"
      by (rule id_take_nth_drop)
    from assms(3) have "sorted_wrt (\<lambda>a b. the (dollar_ms a) \<ge> the (dollar_ms b))
        (take mid arr @ arr ! mid # drop (Suc mid) arr)"
      using split by simp
    then have before: "\<forall>x \<in> set (take mid arr). tmid \<le> the (dollar_ms x)"
      and after: "\<forall>x \<in> set (drop (Suc mid) arr). the (dollar_ms x) \<le> tmid"
      using tmid by (auto simp: sorted_wrt_append)
    show ?thesis
    proof (cases "tmid - tp < 0")
      case neg: True
      from len have "drop mid arr = arr ! mid # drop (Suc mid) arr"
        by (simp add: Cons_nth_drop_Suc)
      with after tmid neg have d: "\<forall>x \<in> set (drop mid arr). the (dollar_ms x) < tp" by auto
      from m less.prems(2) have "mid - left < right - left" "left \<le> mid" "mid \<le> length arr" by simp_all
      from less.hyps [OF this less.prems(3) d] obtain i where
        "binary_search by_date_desc pivot arr left mid = Inr i"
        "\<forall>x \<in> set (take i arr). tp \<le> the (dollar_ms x)"
        "\<forall>x \<in> set (drop i arr). the (dollar_ms x) < tp" by blast
      moreover have "binary_search by_date_desc pivot arr left right =
          binary_search by_date_desc pivot arr left mid"
        using True c neg by (subst binary_search.simps) (simp add: mid_def Let_def)
      ultimately show ?thesis by simp
    next
      case nonneg: False
      from len have "take (Suc mid) arr = take mid arr @ [arr ! mid]"
        by (rule take_Suc_conv_app_nth)
      with before tmid nonneg have t: "\<forall>x \<in> set (take (mid + 1) arr). tp \<le> the (dollar_ms x)"
        by auto
      from m have "right - (mid + 1) < right - left" "mid + 1 \<le> right" by simp_all
      from less.hyps [OF this less.prems(2) t less.prems(4)] obtain i where
        "binary_search by_date_desc pivot arr (mid + 1) right = Inr i"
        "\<forall>x \<in> set (take i arr). tp \<le> the (dollar_ms x)"
        "\<forall>x \<in> set (drop i arr). the (dollar_ms x) < tp" by blast
      moreover have "binary_search by_date_desc pivot arr left right =
          binary_search by_date_desc pivot arr (mid + 1) right"
        using True c nonneg by (subst binary_search.simps) (simp add: mid_def Let_def)
      ultimately show ?thesis by simp
    qed
  qed
qed

lemma binary_insertion_sort_sorted:
  assumes "\<forall>y \<in> set (arr @ xs). dollar_ms y \<noteq> None"
    and "sorted_wrt (\<lambda>a b. the (dollar_ms a) \<ge> the (dollar_ms b)) arr"
  shows "\<exists>zs. binary_insertion_sort by_date_desc arr xs = Inr zs \<and>
           sorted_wrt (\<lambda>a b. the (dollar_ms a) \<ge> the (dollar_ms b)) zs"
  using assms
proof (induction xs arbitrary: arr)
  case Nil
  then show ?case by simp
next
  case (Cons pivot xs)
  from Cons.prems(1) obtain tp where tp: "dollar_ms pivot = Some tp" by auto
  from Cons.prems(1) have arr: "\<forall>x \<in> set arr. dollar_ms x \<noteq> None" by simp
  from binary_search_place [OF tp arr Cons.prems(2), of 0 "length arr"] obtain i where
    i: "binary_search by_date_desc pivot arr 0 (length arr) = Inr i"
       "\<forall>x \<in> set (take i arr). tp \<le> the (dollar_ms x)"
       "\<forall>x \<in> set (drop i arr). the (dollar_ms x) < tp" by auto
  from Cons.prems(2) have parts:
    "sorted_wrt (\<lambda>a b. the (dollar_ms a) \<ge> the (dollar_ms b)) (take i arr)"
    "sorted_wrt (\<lambda>a b. the (dollar_ms a) \<ge> the (dollar_ms b)) (drop i arr)"
    by simp_all
  have cross: "the (dollar_ms y) \<le> the (dollar_ms x)"
    if "x \<in> set (take i arr)" "y \<in> set (drop i arr)" for x y
  proof -
    from that i(2,3) have "tp \<le> the (dollar_ms x)" "the (dollar_ms y) < tp" by simp_all
    then show ?thesis by simp
  qed
  from i(2,3) tp parts cross
  have s: "sorted_wrt (\<lambda>a b. the (dollar_ms a) \<ge> the (dollar_ms b))
      (take i arr @ pivot # drop i arr)"
    unfolding sorted_wrt_append sorted_wrt.simps by (simp add: less_imp_le)
  have "set (take i arr @ pivot # drop i arr) = insert pivot (set arr)"
    using append_take_drop_id [of i arr] by (metis set_append set_simps(2) Un_insert_right)
  with Cons.prems(1) have "\<forall>y \<in> set ((take i arr @ pivot # drop i arr) @ xs). dollar_ms y \<noteq> None"
    by auto
  from Cons.IH [OF this s] i(1) show ?case by simp
qed

lemma array_sort_descending:
  assumes "\<forall>y \<in> set xs. dollar_ms y \<noteq> None"
  shows "\<exists>zs. array_sort by_date_desc xs = Inr zs \<and> mset zs = mset xs \<and>
           sorted_wrt (\<lambda>a b. the (dollar_ms a) \<ge> the (dollar_ms b)) zs"
proof -
  have "\<exists>zs. array_sort by_date_desc xs = Inr zs \<and>
           sorted_wrt (\<lambda>a b. the (dollar_ms a) \<ge> the (dollar_ms b)) zs"
  proof (cases xs)
    case Nil
    then show ?thesis by (simp add: array_sort_def)
  next
    case (Cons x0 ys)
    show ?thesis
    proof (cases ys)
      case Nil
      with Cons show ?thesis by (simp add: array_sort_def)
    next
      case (Cons x1 ws)
      with \<open>xs = x0 # ys\<close> have xs: "xs = x0 # x1 # ws" by simp
      with assms have "\<forall>y \<in> set (x0 # x1 # ws). dollar_ms y \<noteq> None" by simp
      from count_and_make_run_sorted [OF this] obtain run rest where
        r: "count_and_make_run by_date_desc x0 x1 ws = Inr (run, rest)"
           "sorted_wrt (\<lambda>a b. the (dollar_ms a) \<ge> the (dollar_ms b)) run" by blast
      from count_and_make_run_mset [OF r(1)] have "set run \<union> set rest = set (x0 # x1 # ws)"
        by (metis set_mset_mset set_mset_union)
      with assms xs have "\<forall>y \<in> set (run @ rest). dollar_ms y \<noteq> None" by auto
      from binary_insertion_sort_sorted [OF this r(2)] obtain zs where
        "binary_insertion_sort by_date_desc run rest = Inr zs"
        "sorted_wrt (\<lambda>a b. the (dollar_ms a) \<ge> the (dollar_ms b)) zs" by blast
      with r(1) xs show ?thesis
        by (simp add: array_sort_def del: count_and_make_run.simps)
    qed
  qed
  then show ?thesis using array_sort_mset by blast
qed

lemma array_sort_scenario:
  "array_sort by_date_desc (posts scenario_store) =
      Inr [empty_title_post\<lparr>p_id := 2, p_date := Extended (Num 1682899200000)\<rparr>,
           empty_title_post\<lparr>p_id := 3, p_date := Extended (Num 1654041600000)\<rparr>,
           empty_title_post\<lparr>p_id := 1, p_date := Extended (Num 1609459200000)\<rparr>]"
  by (simp add: scenario_store_def array_sort_def by_date_desc_def empty_title_post_def
      binary_search.simps)

lemma array_sort_mixed_dates:
  "array_sort by_date_desc
     [empty_title_post\<lparr>p_id := 1, p_date := Extended (Num 1609459200000)\<rparr>,
      empty_title_post\<lparr>p_id := 2, p_date := DateObject (Date (Num 1654041600000))\<rparr>,
      empty_title_post\<lparr>p_id := 3, p_date := Extended (Num 1682899200000)\<rparr>] =
   Inr [empty_title_post\<lparr>p_id := 1, p_date := Extended (Num 1609459200000)\<rparr>,
        empty_title_post\<lparr>p_id := 2, p_date := DateObject (Date (Num 1654041600000))\<rparr>,
        empty_title_post\<lparr>p_id := 3, p_date := Extended (Num 1682899200000)\<rparr>]"
  by (simp add: array_sort_def by_date_desc_def empty_title_post_def)

subsection \<open>The resolvers that read the date\<close>

text \<open>
  \<^verbatim>\<open>Post.timestamp\<close> on the three shapes of a date. The two sorting queries change
  nothing but the order of the posts. On a collection whose dates are all objects
  \<^verbatim>\<open>{$date: v}\<close> with a valid \<^verbatim>\<open>v\<close>, \<^verbatim>\<open>latestPost\<close> returns a post of maximal date and
  \<^verbatim>\<open>recentPosts\<close> the first \<^verbatim>\<open>count\<close> posts by descending date; on the scenario of the
  specification \<^verbatim>\<open>recentPosts(count: 2)\<close> returns the posts 2 and 3.
\<close>

lemma timestamp_cases:
  "timestamp p =
     (case p_date p of
        Undefined \<Rightarrow> Inr None
      | DateObject d \<Rightarrow> Inr (Some d)
      | Extended t \<Rightarrow> Inl TypeError)"
proof (cases "p_date p")
  case (DateObject d)
  then show ?thesis by (cases d) (simp add: timestamp_def)
qed (simp_all add: timestamp_def)

lemma latestPost_frame:
  "latestPost s = (r, s') \<Longrightarrow>
   mset (posts s') = mset (posts s) \<and> users s' = users s \<and> comments s' = comments s"
  by (auto simp: latestPost_def split: sum.splits dest: array_sort_mset)

lemma recentPosts_frame:
  "recentPosts s cnt = (r, s') \<Longrightarrow>
   mset (posts s') = mset (posts s) \<and> users s' = users s \<and> comments s' = comments s"
  by (auto simp: recentPosts_def split: sum.splits dest: array_sort_mset)

lemma latestPost_dollar_dates:
  assumes "\<forall>p \<in> set (posts s). dollar_ms p \<noteq> None" and "posts s \<noteq> []"
  shows "\<exists>p arr. latestPost s = (Inr (Some p), s\<lparr>posts := arr\<rparr>) \<and> p \<in> set (posts s) \<and>
           (\<forall>q \<in> set (posts s). the (dollar_ms q) \<le> the (dollar_ms p)) \<and>
           mset arr = mset (posts s) \<and>
           sorted_wrt (\<lambda>a b. the (dollar_ms a) \<ge> the (dollar_ms b)) arr"
proof -
  from array_sort_descending [OF assms(1)] obtain arr where
    arr: "array_sort by_date_desc (posts s) = Inr arr" "mset arr = mset (posts s)"
         "sorted_wrt (\<lambda>a b. the (dollar_ms a) \<ge> the (dollar_ms b)) arr" by blast
  from arr(2) have set: "set arr = set (posts s)" by (rule mset_eq_setD)
  with assms(2) obtain p qs where pq: "arr = p # qs" by (cases arr) auto
  with arr(3) set have "\<forall>q \<in> set (posts s). the (dollar_ms q) \<le> the (dollar_ms p)" by auto
  with arr pq set show ?thesis by (auto simp: latestPost_def)
qed

lemma recentPosts_dollar_dates:
  assumes "\<forall>p \<in> set (posts s). dollar_ms p \<noteq> None" and "0 \<le> cnt"
  shows "\<exists>arr. recentPosts s cnt = (Inr (take (nat cnt) arr), s\<lparr>posts := arr\<rparr>) \<and>
           mset arr = mset (posts s) \<and>
           sorted_wrt (\<lambda>a b. the (dollar_ms a) \<ge> the (dollar_ms b)) arr"
proof -
  from array_sort_descending [OF assms(1)] obtain arr where
    "array_sort by_date_desc (posts s) = Inr arr" "mset arr = mset (posts s)"
    "sorted_wrt (\<lambda>a b. the (dollar_ms a) \<ge> the (dollar_ms b)) arr" by blast
  with assms(2) show ?thesis by (auto simp: recentPosts_def slice_prefix)
qed

lemma recentPosts_scenario_dollar_dates:
  "map_sum (\<lambda>e. e) (map p_id) (fst (recentPosts scenario_store 2)) = Inr [2, 3]"
  by (simp add: recentPosts_def array_sort_scenario slice_def)

section \<open>The claims\<close>

subsection \<open>C1: \<^verbatim>\<open>latestPost\<close> and \<^verbatim>\<open>recentPosts\<close> on posts that \<^verbatim>\<open>createPost\<close> made\<close>

text \<open>
  Claim C1 says that, for every posts collection, \<^verbatim>\<open>latestPost()\<close> returns the post of
  maximal date and \<^verbatim>\<open>recentPosts(count)\<close> the first \<^verbatim>\<open>count\<close> posts by descending
  date. The code at two posts that \<^verbatim>\<open>createPost\<close> made, at the times 1000 and 2000:
  \<^verbatim>\<open>createPost\<close> stores a \<^verbatim>\<open>Date\<close> instance, the comparator reads
  \<^verbatim>\<open>date['$date']\<close> from it and computes \<^verbatim>\<open>NaN\<close>, the sort moves nothing, and
  \<^verbatim>\<open>latestPost()\<close> returns the first post made, the older one, as does
  \<^verbatim>\<open>recentPosts(count: 1)\<close>. On the scenario of the specification with \<^verbatim>\<open>Date\<close>
  instances, \<^verbatim>\<open>recentPosts(count: 2)\<close> returns the posts 1 and 2, not 2 and 3.
\<close>

theorem latestPost_after_createPost:
  "\<exists>p1 s1 p2 s2.
      createPost lower_latin1 store0 1000 args_T = (Inr p1, s1) \<and>
      createPost lower_latin1 s1 2000 args_T = (Inr p2, s2) \<and>
      p_id p1 = 1 \<and> p_date p1 = DateObject (Date (Num 1000)) \<and>
      p_id p2 = 2 \<and> p_date p2 = DateObject (Date (Num 2000)) \<and>
      fst (latestPost s2) = Inr (Some p1) \<and> fst (recentPosts s2 1) = Inr [p1] \<and>
      map_sum (\<lambda>e. e) (map p_id) (fst (recentPosts scenario_store_dates 2)) = Inr [1, 2]"
  by (simp add: createPost_def store0_def args_T_def lower_Alice users_get_def Let_def
      latestPost_def recentPosts_def array_sort_def by_date_desc_def slice_def
      scenario_store_dates_def empty_title_post_def)

subsection \<open>C2: the mutations on a name that every object inherits\<close>

text \<open>
  Claim C2 says that \<^verbatim>\<open>createPost\<close> throws exactly when the author does not resolve to
  an existing user, and \<^verbatim>\<open>createUser\<close> exactly when the lower-cased username is the key
  of an existing user. The code at the name \<^verbatim>\<open>constructor\<close>, on a store whose only user
  is \<^verbatim>\<open>Alice\<close>: \<^verbatim>\<open>UsersMap['constructor']\<close> is the inherited function, which is truthy,
  so \<^verbatim>\<open>createPost\<close> does not throw and appends a post whose \<^verbatim>\<open>userId\<close> is
  \<^verbatim>\<open>undefined\<close>, and \<^verbatim>\<open>createUser\<close> throws although no user has that key. (On every
  other name the two calls are as the claim says: \<open>createPost_atomic\<close>,
  \<open>createUser_atomic\<close>.)
\<close>

theorem mutations_on_inherited_name:
  "map_of (users store0) (lower_latin1 (a_author args_constructor)) = None \<and>
   (\<exists>p. createPost lower_latin1 store0 1000 args_constructor = (Inr p, store0\<lparr>posts := [p]\<rparr>) \<and>
        p_id p = 1 \<and> p_userId p = None) \<and>
   map_of (users store0) (lower_latin1 (a_username user_args_constructor)) = None \<and>
   createUser lower_latin1 store0 user_args_constructor =
     (Inl (Error (str ''User already exists: '' @ str ''constructor'')), store0)"
  by (simp add: createPost_def createUser_def store0_def args_constructor_def
      user_args_constructor_def lower_constructor users_get_def constructor_inherited
      names_differ Let_def)

subsection \<open>C3: the order of the posts after a sorting query\<close>

text \<open>
  Claim C3 says that \<^verbatim>\<open>latestPost()\<close> and \<^verbatim>\<open>recentPosts(count)\<close> leave the posts
  collection in descending order of date, not in the order of insertion. The code at the
  two posts that \<^verbatim>\<open>createPost\<close> made at the times 1000 and 2000: after either query the
  collection is still in the order of insertion, the older post first. (That the queries
  change no post and nothing else in the store is \<open>latestPost_frame\<close> and
  \<open>recentPosts_frame\<close>.)
\<close>

theorem latestPost_leaves_insertion_order:
  "\<exists>p1 s1 p2 s2.
      createPost lower_latin1 store0 1000 args_T = (Inr p1, s1) \<and>
      createPost lower_latin1 s1 2000 args_T = (Inr p2, s2) \<and>
      p_date p1 = DateObject (Date (Num 1000)) \<and> p_date p2 = DateObject (Date (Num 2000)) \<and>
      posts s2 = [p1, p2] \<and>
      posts (snd (latestPost s2)) = [p1, p2] \<and> posts (snd (recentPosts s2 2)) = [p1, p2]"
  by (simp add: createPost_def store0_def args_T_def lower_Alice users_get_def Let_def
      latestPost_def recentPosts_def array_sort_def by_date_desc_def)

subsection \<open>C4: the identifiers and the \<^verbatim>\<open>userId\<close> that \<^verbatim>\<open>createPost\<close> assigns\<close>

text \<open>
  Claim C4 says that the posts of consecutive successful \<^verbatim>\<open>createPost\<close> calls from an
  empty collection have the identifiers 1, 2, ... and that the \<^verbatim>\<open>userId\<close> of each is the
  \<^verbatim>\<open>id\<close> of the user that its author resolves to. The code at two calls, the first with
  the author \<^verbatim>\<open>Alice\<close> and the second with the author \<^verbatim>\<open>constructor\<close>: both return,
  with the identifiers 1 and 2; the first post has the \<^verbatim>\<open>id\<close> of \<^verbatim>\<open>Alice\<close>, the second
  has the \<^verbatim>\<open>userId\<close> \<^verbatim>\<open>undefined\<close>, and no user has the key \<^verbatim>\<open>constructor\<close>. (The
  identifiers are as the claim says on every sequence of calls, and so is the
  \<^verbatim>\<open>userId\<close> of every post whose lower-cased author is a key of the users:
  \<open>createPosts_ids\<close>.)
\<close>

theorem createPosts_inherited_author:
  "\<exists>p1 p2 s'.
      posts store0 = [] \<and>
      createPosts lower_latin1 store0 [(1000, args_T), (2000, args_constructor)] =
        ([Inr p1, Inr p2], s') \<and>
      p_id p1 = 1 \<and> p_id p2 = 2 \<and> p_userId p1 = Some (u_id alice) \<and>
      map_of (users store0) (lower_latin1 (a_author args_constructor)) = None \<and>
      p_userId p2 = None"
  by (simp add: createPost_def store0_def args_T_def args_constructor_def lower_Alice
      lower_constructor users_get_def constructor_inherited names_differ Let_def)

subsection \<open>C5: the keys of the users stay lower-cased usernames\<close>

text \<open>
  Claim C5: if every key of the users is the lower-cased \<^verbatim>\<open>username\<close> of the user stored
  under it, it is so after any sequence of \<^verbatim>\<open>createUser\<close> and \<^verbatim>\<open>createPost\<close> calls,
  whether they return or throw, and whatever the case mapping is.
\<close>

theorem mutations_keys_lowercased:
  "keys_lowercased lc s \<Longrightarrow> keys_lowercased lc (mutations lc s ms)"
  unfolding mutations_def
  by (induction ms arbitrary: s) (simp_all add: mutate_keys_lowercased)

text \<open>
  Witness of C5: from the store with the user \<^verbatim>\<open>Alice\<close>, a \<^verbatim>\<open>createUser\<close> that returns,
  a \<^verbatim>\<open>createPost\<close> that returns, a \<^verbatim>\<open>createUser\<close> that throws and a \<^verbatim>\<open>createPost\<close>
  that throws.
\<close>

theorem mutations_keys_lowercased_witness:
  "keys_lowercased lower_latin1 store0 \<and>
   keys_lowercased lower_latin1 (mutations lower_latin1 store0 muts) \<and>
   map fst (users (mutations lower_latin1 store0 muts)) = [str ''alice'', str ''bob''] \<and>
   map (u_username \<circ> snd) (users (mutations lower_latin1 store0 muts)) = [str ''Alice'', str ''Bob''] \<and>
   map p_id (posts (mutations lower_latin1 store0 muts)) = [1]"
proof -
  have "keys_lowercased lower_latin1 (mutations lower_latin1 store0 muts)"
    using mutations_keys_lowercased [OF keys_lowercased_store0, of muts] .
  moreover have "array_index (str ''bob'') = None"
    by code_simp
  then have "map fst (users (mutations lower_latin1 store0 muts)) = [str ''alice'', str ''bob''] \<and>
   map (u_username \<circ> snd) (users (mutations lower_latin1 store0 muts)) = [str ''Alice'', str ''Bob''] \<and>
   map p_id (posts (mutations lower_latin1 store0 muts)) = [1]"
    by (simp add: mutations_def muts_def store0_def createUser_def createPost_def args_bob_def
        args_T_def args_alice_def args_nobody_def lower_Bob lower_BOB lower_ALICE lower_Carol
        users_get_def str_eq_iff names_of_users_own enumerated_before_def alice_def Let_def)
  ultimately show ?thesis using keys_lowercased_store0 by simp
qed

subsection \<open>C6: the dispatch of \<^verbatim>\<open>HasAuthor\<close>\<close>

text \<open>
  Claim C6 says that a record that carries a \<^verbatim>\<open>title\<close> field is classified as a post.
  Counterexample to C6: a post whose title is the empty string carries the field, and the
  dispatch does not classify it as a post, since the empty string is falsy.
\<close>

theorem resolveType_empty_title:
  "map_of (post_object empty_title_post) (str ''title'') \<noteq> None \<and>
   resolveType (post_object empty_title_post) \<noteq> Some PostType"
proof -
  have "str ''title'' \<noteq> str ''id''" "str ''title'' \<noteq> str ''userId''"
    "str ''replies'' \<noteq> str ''id''" "str ''replies'' \<noteq> str ''userId''"
    "str ''replies'' \<noteq> str ''title''" "str ''replies'' \<noteq> str ''body''"
    by code_simp+
  then show ?thesis
    by (simp add: resolveType_def get_prop_def post_object_def empty_title_post_def replies_own)
qed

text \<open>
  Claim C6 as amended: a record whose \<^verbatim>\<open>title\<close> is truthy is a post; otherwise a record
  whose \<^verbatim>\<open>replies\<close> is truthy is a comment; otherwise the dispatch gives \<^verbatim>\<open>null\<close>. In
  particular every post with a non-empty title is a post.
\<close>

theorem resolveType_truthy:
  "((\<exists>v. map_of obj (str ''title'') = Some v \<and> truthy v) \<longrightarrow> resolveType obj = Some PostType) \<and>
   (\<not> (\<exists>v. map_of obj (str ''title'') = Some v \<and> truthy v) \<and>
      (\<exists>v. map_of obj (str ''replies'') = Some v \<and> truthy v) \<longrightarrow> resolveType obj = Some CommentType) \<and>
   (\<not> (\<exists>v. map_of obj (str ''title'') = Some v \<and> truthy v) \<and>
      \<not> (\<exists>v. map_of obj (str ''replies'') = Some v \<and> truthy v) \<longrightarrow> resolveType obj = None) \<and>
   (p_title p \<noteq> [] \<longrightarrow> resolveType (post_object p) = Some PostType)"
proof -
  have n: "str ''title'' \<noteq> str ''id''" "str ''title'' \<noteq> str ''userId''"
    by code_simp+
  show ?thesis
    by (auto simp: resolveType_def get_prop_def post_object_def title_own replies_own n
        split: option.splits)
qed

text \<open>
  Witness of the amended C6: a record with a non-empty title, a record with an empty title
  and an (empty) array of replies, a comment record, and a post with a non-empty title.
\<close>

theorem resolveType_truthy_witness:
  "resolveType [(str ''title'', JString (str ''T''))] = Some PostType \<and>
   resolveType [(str ''title'', JString []), (str ''replies'', JArray [])] = Some CommentType \<and>
   resolveType [(str ''id'', JNumber (Num 3)), (str ''postId'', JNumber (Num 1))] = None \<and>
   resolveType (post_object (empty_title_post\<lparr>p_title := str ''T''\<rparr>)) = Some PostType"
proof -
  have n: "str ''title'' \<noteq> str ''id''" "str ''title'' \<noteq> str ''postId''"
    "str ''replies'' \<noteq> str ''id''" "str ''replies'' \<noteq> str ''postId''"
    "str ''replies'' \<noteq> str ''title''" "str ''T'' \<noteq> []"
    by code_simp+
  show ?thesis
    using resolveType_truthy [of "[(str ''title'', JString (str ''T''))]"
        "empty_title_post\<lparr>p_title := str ''T''\<rparr>"]
      resolveType_truthy [of "[(str ''title'', JString []), (str ''replies'', JArray [])]"
        empty_title_post]
      resolveType_truthy [of "[(str ''id'', JNumber (Num 3)), (str ''postId'', JNumber (Num 1))]"
        empty_title_post]
    by (simp add: n)
qed

subsection \<open>C7: \<^verbatim>\<open>Post.timestamp\<close> on a date that the comparator can read\<close>

text \<open>
  Claim C7 says that, for every post that has a date, \<^verbatim>\<open>Post.timestamp\<close> returns the
  date as a numeric epoch value. The code at a post whose date is the object
  \<^verbatim>\<open>{$date: v}\<close> for 2021-01-01, the shape that the comparator of \<^verbatim>\<open>latestPost\<close> reads:
  the post has a date, the comparator reads the time value 1609459200000 from it, and
  \<^verbatim>\<open>Post.timestamp\<close> throws, since the object has no \<^verbatim>\<open>getTime\<close>. (On a \<^verbatim>\<open>Date\<close>
  instance and on a post without a date the resolver is as the claim says:
  \<open>timestamp_cases\<close>.)
\<close>

theorem timestamp_dollar_date:
  "p_date (empty_title_post\<lparr>p_date := Extended (Num 1609459200000)\<rparr>) \<noteq> Undefined \<and>
   dollar_ms (empty_title_post\<lparr>p_date := Extended (Num 1609459200000)\<rparr>) = Some 1609459200000 \<and>
   timestamp (empty_title_post\<lparr>p_date := Extended (Num 1609459200000)\<rparr>) = Inl TypeError"
  by (simp add: timestamp_def dollar_ms_def)

subsection \<open>C8: \<^verbatim>\<open>Post.comments\<close>\<close>

text \<open>
  Claim C8: \<^verbatim>\<open>Post.comments(limit)\<close> returns the comments of the post in the order of the
  collection, the first \<^verbatim>\<open>limit\<close> of them when \<^verbatim>\<open>limit\<close> is given and not negative (all
  of them when there are fewer), and all of them when \<^verbatim>\<open>limit\<close> is negative or not given.
\<close>

theorem post_comments_limit:
  "(0 \<le> l \<longrightarrow> post_comments s p (Some l) =
       take (nat l) (filter (\<lambda>c. p_id p = cm_postId c) (comments s))) \<and>
   (l < 0 \<longrightarrow> post_comments s p (Some l) = filter (\<lambda>c. p_id p = cm_postId c) (comments s)) \<and>
   post_comments s p None = filter (\<lambda>c. p_id p = cm_postId c) (comments s)"
  by (simp add: post_comments_def slice_prefix Let_def)

text \<open>
  Witness of C8: a post with five comments among seven, with the limits 2, 9 and -1 and
  without a limit.
\<close>

theorem post_comments_limit_witness:
  "post_comments store_comments empty_title_post (Some 2) = [cm 1 1, cm 3 1] \<and>
   post_comments store_comments empty_title_post (Some 9) = [cm 1 1, cm 3 1, cm 4 1, cm 6 1, cm 7 1] \<and>
   post_comments store_comments empty_title_post (Some (- 1)) = [cm 1 1, cm 3 1, cm 4 1, cm 6 1, cm 7 1] \<and>
   post_comments store_comments empty_title_post None = [cm 1 1, cm 3 1, cm 4 1, cm 6 1, cm 7 1]"
  using post_comments_limit [of 2 store_comments empty_title_post]
    post_comments_limit [of 9 store_comments empty_title_post]
    post_comments_limit [of "- 1" store_comments empty_title_post]
  by (simp add: store_comments_def empty_title_post_def cm_def)

subsection \<open>C9: \<^verbatim>\<open>user\<close> and the case of the username\<close>

text \<open>
  Claim C9 says that \<^verbatim>\<open>user(U)\<close> and \<^verbatim>\<open>user(upper(U))\<close> return the same record for
  every registered username \<^verbatim>\<open>U\<close>. Counterexample to C9: with a user registered under
  \<^verbatim>\<open>stra\<close>, sharp s, \<^verbatim>\<open>e\<close>, the query with that username returns the user, the
  upper-cased username is \<^verbatim>\<open>STRASSE\<close>, and \<^verbatim>\<open>user('STRASSE')\<close> looks for the key
  \<^verbatim>\<open>strasse\<close> and returns \<^verbatim>\<open>undefined\<close>.
\<close>

theorem user_query_upper_strasse:
  "map_of (users store_strasse) (lower_latin1 strasse) = Some strasse_user \<and>
   user_query lower_latin1 store_strasse strasse = User strasse_user \<and>
   upper_latin1 strasse = str ''STRASSE'' \<and>
   user_query lower_latin1 store_strasse (upper_latin1 strasse) = NoEntry"
  by (simp add: user_query_def users_get_def store_strasse_def lower_strasse upper_strasse
      lower_STRASSE names_differ names_of_users_own)

text \<open>
  Claim C9 as amended, for every case mapping: \<^verbatim>\<open>user(V)\<close> and \<^verbatim>\<open>user(U)\<close> return the
  same whenever \<^verbatim>\<open>V\<close> and \<^verbatim>\<open>U\<close> have the same lower-cased form, so \<^verbatim>\<open>user(upper(U))\<close>
  and \<^verbatim>\<open>user(U)\<close> do whenever lower-casing the upper-cased \<^verbatim>\<open>U\<close> gives the lower-cased
  \<^verbatim>\<open>U\<close>; when a user is stored under the lower-cased \<^verbatim>\<open>U\<close>, and after a \<^verbatim>\<open>createUser\<close>
  that returned for the username \<^verbatim>\<open>U\<close>, \<^verbatim>\<open>user(U)\<close> returns that user; and \<^verbatim>\<open>user(U)\<close>
  returns \<^verbatim>\<open>undefined\<close> when the lower-cased \<^verbatim>\<open>U\<close> is neither a key of the users nor
  the name of a property that the users object inherits.
\<close>

theorem user_query_lower_cased:
  "(lc V = lc U \<longrightarrow> user_query lc s V = user_query lc s U) \<and>
   (lc (uc U) = lc U \<longrightarrow> user_query lc s (uc U) = user_query lc s U) \<and>
   (map_of (users s) (lc U) = Some u \<longrightarrow> user_query lc s U = User u) \<and>
   (createUser lc s args = (Inr u', s') \<longrightarrow> user_query lc s' (a_username args) = User u') \<and>
   (map_of (users s) (lc U) = None \<and> lc U \<notin> set object_prototype_names \<longrightarrow>
      user_query lc s U = NoEntry)"
proof -
  have "user_query lc s' (a_username args) = User u'" if c: "createUser lc s args = (Inr u', s')"
  proof -
    from c have n: "users_get (users s) (lc (a_username args)) = NoEntry"
      using createUser_error [where lc = lc and s = s and args = args] by auto
    from createUser_success [where lc = lc and s = s and args = args, OF n] c
    have "s' = s\<lparr>users := own_put (lc (a_username args)) u' (users s)\<rparr>" by auto
    then show ?thesis by (simp add: user_query_def users_get_def map_of_own_put)
  qed
  then show ?thesis by (auto simp: user_query_def users_get_def)
qed

text \<open>
  Witness of the amended C9: \<^verbatim>\<open>Alice\<close>, \<^verbatim>\<open>ALICE\<close> and the upper-cased \<^verbatim>\<open>Alice\<close> find
  the stored user, \<^verbatim>\<open>Bob\<close> finds nothing, and \<^verbatim>\<open>Bob\<close> and the upper-cased \<^verbatim>\<open>Bob\<close>
  find the user that \<^verbatim>\<open>createUser\<close> made for \<^verbatim>\<open>Bob\<close>.
\<close>

theorem user_query_lower_cased_witness:
  "user_query lower_latin1 store0 (str ''Alice'') = User alice \<and>
   user_query lower_latin1 store0 (str ''ALICE'') = User alice \<and>
   user_query lower_latin1 store0 (upper_latin1 (str ''Alice'')) = User alice \<and>
   user_query lower_latin1 store0 (str ''Bob'') = NoEntry \<and>
   (\<exists>u' s'. createUser lower_latin1 store0 args_bob = (Inr u', s') \<and>
      user_query lower_latin1 s' (str ''Bob'') = User u' \<and>
      user_query lower_latin1 s' (upper_latin1 (str ''Bob'')) = User u')"
proof -
  have a: "map_of (users store0) (lower_latin1 (str ''Alice'')) = Some alice"
    by (simp add: store0_def lower_Alice)
  have b: "map_of (users store0) (lower_latin1 (str ''Bob'')) = None \<and>
      lower_latin1 (str ''Bob'') \<notin> set object_prototype_names"
    by (simp add: store0_def lower_Bob names_differ names_of_users_own)
  have ua: "lower_latin1 (upper_latin1 (str ''Alice'')) = lower_latin1 (str ''Alice'')"
    by (simp add: upper_Alice lower_ALICE lower_Alice)
  have ub: "lower_latin1 (upper_latin1 (str ''Bob'')) = lower_latin1 (str ''Bob'')"
    by (simp add: upper_Bob lower_BOB lower_Bob)
  have aa: "lower_latin1 (str ''ALICE'') = lower_latin1 (str ''Alice'')"
    by (simp add: lower_ALICE lower_Alice)
  obtain u' s' where c: "createUser lower_latin1 store0 args_bob = (Inr u', s')"
    using b by (simp add: createUser_def args_bob_def users_get_def Let_def)
  note t1 = user_query_lower_cased [where lc = lower_latin1 and uc = upper_latin1 and s = store0
      and U = "str ''Alice''" and V = "str ''ALICE''" and u = alice]
  note t2 = user_query_lower_cased [where lc = lower_latin1 and uc = upper_latin1 and s = store0
      and U = "str ''Bob''" and args = args_bob and u' = u' and s' = s']
  note t3 = user_query_lower_cased [where lc = lower_latin1 and uc = upper_latin1 and s = s'
      and U = "str ''Bob''"]
  from t1 a ua aa have "user_query lower_latin1 store0 (str ''Alice'') = User alice"
    "user_query lower_latin1 store0 (str ''ALICE'') = User alice"
    "user_query lower_latin1 store0 (upper_latin1 (str ''Alice'')) = User alice"
    by simp_all
  moreover from t2 b have "user_query lower_latin1 store0 (str ''Bob'') = NoEntry" by blast
  moreover from t2 c have "user_query lower_latin1 s' (str ''Bob'') = User u'"
    by (simp add: args_bob_def)
  moreover from t3 ub this have "user_query lower_latin1 s' (upper_latin1 (str ''Bob'')) = User u'"
    by simp
  ultimately show ?thesis using c by blast
qed

subsection \<open>C10: \<^verbatim>\<open>recentPosts\<close> with a negative count\<close>

text \<open>
  Claim C10 says that, for every negative \<^verbatim>\<open>count\<close>, \<^verbatim>\<open>recentPosts(count)\<close> returns
  neither an empty list nor the full list. Counterexample to C10: on a collection of one
  post, \<^verbatim>\<open>recentPosts(count: -1)\<close> returns the empty list.
\<close>

theorem recentPosts_negative_empty:
  "(- 1 :: int) < 0 \<and> fst (recentPosts one_post_store (- 1)) = Inr []"
  by (simp add: recentPosts_def one_post_store_def array_sort_def slice_def)

text \<open>
  Claim C10 as amended: for every negative \<^verbatim>\<open>count\<close>, on a collection whose dates are all
  objects \<^verbatim>\<open>{$date: v}\<close> with a valid \<^verbatim>\<open>v\<close>, \<^verbatim>\<open>recentPosts(count)\<close> returns all the
  posts, sorted by descending date, except the last \<open>|count|\<close> of them, and leaves the
  collection sorted. The result is never the full list of a non-empty collection, and it
  is the empty list exactly when the collection has at most \<open>|count|\<close> posts.
\<close>

theorem recentPosts_negative:
  assumes "cnt < 0" and "\<forall>p \<in> set (posts s). dollar_ms p \<noteq> None"
  shows "\<exists>arr kept dropped.
           recentPosts s cnt = (Inr kept, s\<lparr>posts := arr\<rparr>) \<and>
           mset arr = mset (posts s) \<and>
           sorted_wrt (\<lambda>a b. the (dollar_ms a) \<ge> the (dollar_ms b)) arr \<and>
           arr = kept @ dropped \<and> length dropped = min (nat (- cnt)) (length arr) \<and>
           (kept = [] \<longleftrightarrow> length (posts s) \<le> nat (- cnt)) \<and>
           (posts s \<noteq> [] \<longrightarrow> kept \<noteq> arr)"
proof -
  from array_sort_descending [OF assms(2)] obtain arr where
    arr: "array_sort by_date_desc (posts s) = Inr arr" "mset arr = mset (posts s)"
         "sorted_wrt (\<lambda>a b. the (dollar_ms a) \<ge> the (dollar_ms b)) arr" by blast
  from slice_all_but_last [OF assms(1), of arr] obtain dropped where
    d: "arr = slice arr 0 cnt @ dropped" "length dropped = min (nat (- cnt)) (length arr)" by blast
  from arr(2) have len: "length arr = length (posts s)" by (rule mset_eq_length)
  from d have "length arr = length (slice arr 0 cnt) + min (nat (- cnt)) (length arr)"
    by (metis length_append)
  with len have e: "slice arr 0 cnt = [] \<longleftrightarrow> length (posts s) \<le> nat (- cnt)"
    by (auto simp: min_def split: if_splits)
  have f: "slice arr 0 cnt \<noteq> arr" if "posts s \<noteq> []"
  proof
    assume "slice arr 0 cnt = arr"
    with d(1) have "dropped = []" by (metis self_append_conv)
    with d(2) assms(1) len that show False by (simp add: min_def split: if_splits)
  qed
  from arr d e f show ?thesis by (auto simp: recentPosts_def)
qed

text \<open>
  Witness of the amended C10: on the scenario of the specification,
  \<^verbatim>\<open>recentPosts(count: -1)\<close> returns the posts 2 and 3 and leaves the post 1 last in the
  collection.
\<close>

theorem recentPosts_negative_witness:
  "\<exists>kept. recentPosts scenario_store (- 1) =
       (Inr kept, scenario_store\<lparr>posts := kept @ [hd (posts scenario_store)]\<rparr>) \<and>
     map p_id kept = [2, 3]"
proof -
  have d: "\<forall>p \<in> set (posts scenario_store). dollar_ms p \<noteq> None"
    by (simp add: scenario_store_def dollar_ms_def)
  have n: "(- 1 :: int) < 0" by simp
  from recentPosts_negative [OF n d] obtain arr kept dropped where
    r: "recentPosts scenario_store (- 1) = (Inr kept, scenario_store\<lparr>posts := arr\<rparr>)"
       "arr = kept @ dropped" "length dropped = min (nat (- (- 1))) (length arr)" by blast
  from r(1) have "array_sort by_date_desc (posts scenario_store) = Inr arr"
    by (auto simp: recentPosts_def split: sum.splits) (metis store.select_convs(1) store.surjective store.update_convs(1))
  with array_sort_scenario
  have arr: "arr = [empty_title_post\<lparr>p_id := 2, p_date := Extended (Num 1682899200000)\<rparr>,
           empty_title_post\<lparr>p_id := 3, p_date := Extended (Num 1654041600000)\<rparr>,
           empty_title_post\<lparr>p_id := 1, p_date := Extended (Num 1609459200000)\<rparr>]" by simp
  with r(3) have "length dropped = 1" by simp
  then obtain b where b: "dropped = [b]" by (cases dropped) auto
  with r(2) arr have "kept = [empty_title_post\<lparr>p_id := 2, p_date := Extended (Num 1682899200000)\<rparr>,
           empty_title_post\<lparr>p_id := 3, p_date := Extended (Num 1654041600000)\<rparr>]"
      "b = empty_title_post\<lparr>p_id := 1, p_date := Extended (Num 1609459200000)\<rparr>"
    by (cases kept; cases "tl kept"; cases "tl (tl kept)"; auto)+
  with r(1) r(2) b show ?thesis by (auto simp: scenario_store_def empty_title_post_def)
qed

end
